theory Spec2Isabelle
  imports Main
begin

section \<open>JavaScript strings\<close>

text \<open>
  A JavaScript string is a sequence of UTF-16 code units. It is modelled as a \<open>string\<close> (a
  list of \<open>char\<close>), a \<open>char\<close> standing for the code unit of the same value: the model
  covers the strings of code units \<open>U+0000\<close> to \<open>U+00FF\<close>. On them
  \<open>String.prototype.toLowerCase\<close> maps code unit by code unit: \<open>A\<close>..\<open>Z\<close> and the letters
  \<open>U+00C0\<close>..\<open>U+00DE\<close> (but the sign \<open>U+00D7\<close>) go 32 up, and every other one is kept.
\<close>

definition lower_unit :: "nat \<Rightarrow> nat" where
  "lower_unit n =
     (if (65 \<le> n \<and> n \<le> 90) \<or> (192 \<le> n \<and> n \<le> 222 \<and> n \<noteq> 215) then n + 32 else n)"

definition toLowerCase_char :: "char \<Rightarrow> char" where
  "toLowerCase_char c = char_of (lower_unit (of_char c))"

definition toLowerCase :: "string \<Rightarrow> string" where
  "toLowerCase s = map toLowerCase_char s"

text \<open>
  A regular expression with the flag \<open>i\<close> (and without the flag \<open>u\<close>) compares code units
  after \<open>Canonicalize\<close>: the upper case of the code unit when that is one code unit, and not
  one below 128 for a code unit from 128 up. \<open>a\<close>..\<open>z\<close> and \<open>U+00E0\<close>..\<open>U+00FE\<close> (but the sign
  \<open>U+00F7\<close>) go 32 down, \<open>U+00B5\<close> goes to \<open>U+039C\<close>, \<open>U+00FF\<close> to \<open>U+0178\<close>, and \<open>U+00DF\<close>,
  whose upper case is two code units, is kept. The result is a code unit value, which can
  lie above 255.
\<close>

definition canonical_unit :: "nat \<Rightarrow> nat" where
  "canonical_unit n =
     (if (97 \<le> n \<and> n \<le> 122) \<or> (224 \<le> n \<and> n \<le> 254 \<and> n \<noteq> 247) then n - 32
      else if n = 181 then 924
      else if n = 255 then 376
      else n)"

definition canonicalize :: "char \<Rightarrow> nat" where
  "canonicalize c = canonical_unit (of_char c)"

text \<open>The white space of \<open>String.prototype.trim\<close> among these code units: tab, line feed,
  vertical tab, form feed, carriage return, space and the no-break space \<open>U+00A0\<close>.\<close>

definition is_white_space :: "char \<Rightarrow> bool" where
  "is_white_space c = ((of_char c :: nat) \<in> set [9, 10, 11, 12, 13, 32, 160])"

definition trim :: "string \<Rightarrow> string" where
  "trim s = rev (dropWhile is_white_space (rev (dropWhile is_white_space s)))"

text \<open>\<open>s.split(sep)\<close> for a one-character separator; \<open>acc\<close> is the piece being read.
  The result is never empty: \<open>''''.split('\n')\<close> is \<open>['''']\<close>.\<close>

fun split_on :: "char \<Rightarrow> string \<Rightarrow> string \<Rightarrow> string list" where
  "split_on sep acc [] = [acc]"
| "split_on sep acc (c # cs) =
     (if c = sep then acc # split_on sep [] cs else split_on sep (acc @ [c]) cs)"

definition newline :: char where
  "newline = CHR 0x0A"

definition split_newline :: "string \<Rightarrow> string list" where
  "split_newline s = split_on newline [] s"

text \<open>\<open>Array.prototype.join\<close> with a one-character separator.\<close>

fun join_with :: "char \<Rightarrow> string list \<Rightarrow> string" where
  "join_with sep [] = []"
| "join_with sep [p] = p"
| "join_with sep (p # r # rs) = p @ sep # join_with sep (r # rs)"

section \<open>Search and highlight (TranscriptionDisplay.tsx)\<close>

text \<open>
  The pattern is \<open>new RegExp('(' + escaped + ')', 'gi')\<close> where \<open>escaped\<close> is the query
  with every character of regular expression syntax escaped: the pattern matches the query
  literally, code unit by code unit after \<open>Canonicalize\<close>. \<open>regex_matches_at q s\<close> says that
  it matches a prefix of \<open>s\<close>.
\<close>

definition regex_matches_at :: "string \<Rightarrow> string \<Rightarrow> bool" where
  "regex_matches_at q s =
     (length q \<le> length s \<and> map canonicalize (take (length q) s) = map canonicalize q)"

text \<open>
  \<open>paragraph.split(regex)\<close> for this pattern, which has one capture group: the scan moves
  left to right; where the pattern matches, the text read since the last match (\<open>seg\<close>) and
  the captured text are both emitted and the scan resumes after the match; elsewhere it
  moves one character on. A match that is empty and ends where the last one ended is
  skipped, as the language specifies.
\<close>

function split_regex :: "string \<Rightarrow> string \<Rightarrow> string \<Rightarrow> string list" where
  "split_regex q seg [] = [seg]"
| "split_regex q seg (c # cs) =
     (if regex_matches_at q (c # cs) \<and> \<not> (q = [] \<and> seg = [])
      then seg # take (length q) (c # cs) # split_regex q [] (drop (length q) (c # cs))
      else split_regex q (seg @ [c]) cs)"
  by pat_completeness auto
termination
proof (relation "measure (\<lambda>(q, seg, s). 2 * length s + (if seg = [] then 0 else 1))")
  fix q seg :: string and c cs
  assume "regex_matches_at q (c # cs) \<and> \<not> (q = [] \<and> seg = [])"
  then have "2 * (length (c # cs) - length q) < 2 * length (c # cs) + (if seg = [] then 0 else 1)"
    by (cases q; cases "seg = []") auto
  then show "((q, [], drop (length q) (c # cs)), q, seg, c # cs)
      \<in> measure (\<lambda>(q, seg, s). 2 * length s + (if seg = [] then 0 else 1))"
    by simp
qed auto

text \<open>The empty subject is a case of its own: no piece when the pattern matches it, the
  subject alone otherwise.\<close>

definition js_split :: "string \<Rightarrow> string \<Rightarrow> string list" where
  "js_split q s =
     (if s = [] then (if regex_matches_at q [] then [] else [[]]) else split_regex q [] s)"

text \<open>The objects of the source: a part is \<open>{text, isMatch, index}\<close> and a processed
  paragraph is \<open>{text, parts}\<close>. The two \<open>text\<close> fields are named \<open>part_text\<close> and
  \<open>para_text\<close> here.\<close>

record part =
  part_text :: string
  isMatch :: bool
  index :: int

record processed_paragraph =
  para_text :: string
  parts :: "part list"

record search_result =
  processedParagraphs :: "processed_paragraph list"
  totalMatches :: nat

definition plain_part :: "string \<Rightarrow> part" where
  "plain_part p = \<lparr>part_text = p, isMatch = False, index = - 1\<rparr>"

text \<open>The inner \<open>map\<close> over the pieces of one paragraph. The counter \<open>matchCount\<close> of the
  source is a variable shared by all paragraphs: it is passed in and returned.\<close>

fun mark_parts :: "string \<Rightarrow> nat \<Rightarrow> string list \<Rightarrow> part list \<times> nat" where
  "mark_parts searchQuery matchCount [] = ([], matchCount)"
| "mark_parts searchQuery matchCount (p # ps) =
     (if toLowerCase p = toLowerCase searchQuery
      then (case mark_parts searchQuery (matchCount + 1) ps of
              (rest, n) \<Rightarrow>
                (\<lparr>part_text = p, isMatch = True, index = int matchCount\<rparr> # rest, n))
      else (case mark_parts searchQuery matchCount ps of
              (rest, n) \<Rightarrow> (plain_part p # rest, n)))"

text \<open>The outer \<open>map\<close> over the paragraphs: a paragraph that is empty after \<open>trim\<close> is
  returned as one plain part and is not searched.\<close>

fun process_paragraphs :: "string \<Rightarrow> nat \<Rightarrow> string list \<Rightarrow> processed_paragraph list \<times> nat" where
  "process_paragraphs searchQuery matchCount [] = ([], matchCount)"
| "process_paragraphs searchQuery matchCount (p # ps) =
     (if trim p = []
      then (case process_paragraphs searchQuery matchCount ps of
              (rest, n) \<Rightarrow> (\<lparr>para_text = p, parts = [plain_part p]\<rparr> # rest, n))
      else (case mark_parts searchQuery matchCount (js_split searchQuery p) of
              (ms, k) \<Rightarrow>
                (case process_paragraphs searchQuery k ps of
                   (rest, n) \<Rightarrow> (\<lparr>para_text = p, parts = ms\<rparr> # rest, n))))"

text \<open>The body of the \<open>useMemo\<close>: the processed paragraphs and the number of matches.\<close>

definition search :: "string \<Rightarrow> string \<Rightarrow> search_result" where
  "search txt searchQuery =
     (if searchQuery = []
      then \<lparr>processedParagraphs =
              map (\<lambda>p. \<lparr>para_text = p, parts = [plain_part p]\<rparr>) (split_newline txt),
            totalMatches = 0\<rparr>
      else (case process_paragraphs searchQuery 0 (split_newline txt) of
              (ps, n) \<Rightarrow> \<lparr>processedParagraphs = ps, totalMatches = n\<rparr>))"


definition rendered :: "processed_paragraph \<Rightarrow> string" where
  "rendered pp = concat (map part_text (parts pp))"




section \<open>Match navigation (TranscriptionDisplay.tsx)\<close>

text \<open>The operator \<open>%\<close> on integers: the result has the sign of the dividend, and it is
  \<open>NaN\<close> (here \<open>None\<close>) when the divisor is zero.\<close>

definition js_remainder :: "int \<Rightarrow> int \<Rightarrow> int option" where
  "js_remainder a b = (if b = 0 then None else Some (sgn a * (\<bar>a\<bar> mod \<bar>b\<bar>)))"

definition handleNextMatch :: "nat \<Rightarrow> int \<Rightarrow> int option" where
  "handleNextMatch matches prev = js_remainder (prev + 1) (int matches)"

definition handlePrevMatch :: "nat \<Rightarrow> int \<Rightarrow> int option" where
  "handlePrevMatch matches prev = js_remainder (prev - 1 + int matches) (int matches)"

section \<open>Application state (the App component, types.ts)\<close>

datatype TranscriptionStatus = IDLE | PROCESSING_FILE | TRANSCRIBING | COMPLETED | ERROR

datatype media_kind = audio | video

text \<open>What the code reads of the browser's \<open>File\<close>: its name, its MIME type and its size
  in bytes.\<close>

record File =
  file_name :: string
  file_type :: string
  file_size :: nat

text \<open>The fields \<open>file\<close> and \<open>type\<close> of \<open>MediaFile\<close> are named \<open>file_obj\<close> and \<open>media_type\<close>
  here.\<close>

record MediaFile =
  file_obj :: File
  previewUrl :: string
  media_type :: media_kind

datatype tab = transcript | assistant

text \<open>The state of \<open>App\<close>, one field for each \<open>useState\<close>. The counter \<open>elapsedTime\<close>,
  which a timer drives for display only, is left out.\<close>

record app_state =
  mediaFile :: "MediaFile option"
  status :: TranscriptionStatus
  transcription :: string
  error :: "string option"
  activeTab :: tab

text \<open>A handler of \<open>App\<close> is the list of the state setters it calls, in the order of the
  source; running the list gives the state after the handler.\<close>

datatype setter =
    SetMediaFile "MediaFile option"
  | SetStatus TranscriptionStatus
  | SetTranscription string
  | SetError "string option"
  | SetActiveTab tab

fun apply_setter :: "setter \<Rightarrow> app_state \<Rightarrow> app_state" where
  "apply_setter (SetMediaFile m) a = a\<lparr>mediaFile := m\<rparr>"
| "apply_setter (SetStatus st) a = a\<lparr>status := st\<rparr>"
| "apply_setter (SetTranscription t) a = a\<lparr>transcription := t\<rparr>"
| "apply_setter (SetError e) a = a\<lparr>error := e\<rparr>"
| "apply_setter (SetActiveTab t) a = a\<lparr>activeTab := t\<rparr>"

definition run_setters :: "setter list \<Rightarrow> app_state \<Rightarrow> app_state" where
  "run_setters cs a = fold apply_setter cs a"

fun statuses_set :: "setter list \<Rightarrow> TranscriptionStatus list" where
  "statuses_set [] = []"
| "statuses_set (SetStatus st # cs) = st # statuses_set cs"
| "statuses_set (c # cs) = statuses_set cs"

fun transcripts_set :: "setter list \<Rightarrow> string list" where
  "transcripts_set [] = []"
| "transcripts_set (SetTranscription t # cs) = t # transcripts_set cs"
| "transcripts_set (c # cs) = transcripts_set cs"

definition handleFileSelect :: "MediaFile \<Rightarrow> setter list" where
  "handleFileSelect f =
     [SetMediaFile (Some f), SetError None, SetTranscription [], SetStatus IDLE,
      SetActiveTab transcript]"

definition handleReset :: "setter list" where
  "handleReset =
     [SetMediaFile None, SetTranscription [], SetStatus IDLE, SetError None,
      SetActiveTab transcript]"

text \<open>
  \<open>transcribeMedia\<close> (the service): \<open>r\<close> is what the work inside its \<open>try\<close> does, \<open>Inr\<close> the
  text of the response (empty when there is none) or \<open>Inl\<close> the message of the error thrown
  (empty when it has none). The result is \<open>Inr\<close> the transcript or \<open>Inl\<close> the message of the
  error that \<open>transcribeMedia\<close> throws.
\<close>

definition transcribeMedia :: "string \<Rightarrow> string + string \<Rightarrow> string + string" where
  "transcribeMedia apiKey r =
     (if apiKey = []
      then Inl ''API Key is missing. Please check your environment configuration.''
      else (case r of
              Inr response_text \<Rightarrow>
                if response_text = [] then Inl ''No transcription text returned from the model.''
                else Inr response_text
            | Inl message \<Rightarrow>
                Inl (if message = [] then ''An unexpected error occurred during transcription.''
                     else message)))"

text \<open>
  \<open>handleTranscribe\<close> is an \<open>async\<close> function: \<open>handleTranscribe_start\<close> is what it does up to
  the \<open>await\<close> (the setters called, and whether \<open>transcribeMedia\<close> is called), and
  \<open>handleTranscribe_settle\<close> is what it does when the awaited call has returned (\<open>Inr\<close>) or
  thrown (\<open>Inl\<close>).
\<close>

definition handleTranscribe_start :: "app_state \<Rightarrow> setter list \<times> File option" where
  "handleTranscribe_start a =
     (case mediaFile a of
        None \<Rightarrow> ([], None)
      | Some m \<Rightarrow> ([SetStatus PROCESSING_FILE, SetError None, SetStatus TRANSCRIBING],
                   Some (file_obj m)))"

definition handleTranscribe_settle :: "string + string \<Rightarrow> setter list" where
  "handleTranscribe_settle outcome =
     (case outcome of
        Inr result \<Rightarrow> [SetTranscription result, SetStatus COMPLETED]
      | Inl message \<Rightarrow>
          [SetError (Some (if message = [] then ''An unexpected error occurred.'' else message)),
           SetStatus ERROR])"

section \<open>File validation (the MediaUploader component)\<close>

definition startsWith :: "string \<Rightarrow> string \<Rightarrow> bool" where
  "startsWith s p = (take (length p) s = p)"

record uploader_state =
  upload_error :: "string option"

text \<open>\<open>validateAndProcessFile\<close>: the state of the uploader after it, and the argument of
  \<open>onFileSelect\<close> when it is called. \<open>url\<close> is what \<open>URL.createObjectURL\<close> returns.\<close>

definition validateAndProcessFile ::
    "File \<Rightarrow> string \<Rightarrow> uploader_state \<Rightarrow> uploader_state \<times> MediaFile option" where
  "validateAndProcessFile f url u =
     (let u1 = u\<lparr>upload_error := None\<rparr>;
          isAudio = startsWith (file_type f) ''audio/'';
          isVideo = startsWith (file_type f) ''video/''
      in if \<not> isAudio \<and> \<not> isVideo
         then (u1\<lparr>upload_error := Some ''Please upload a valid audio or video file.''\<rparr>, None)
         else if file_size f > 50 * 1024 * 1024
         then (u1\<lparr>upload_error := Some
                 ''File is too large for this demo (limit 50MB). Please compress or trim the file.''\<rparr>,
               None)
         else (u1, Some \<lparr>file_obj = f, previewUrl = url,
                          media_type = (if isAudio then audio else video)\<rparr>))"

section \<open>The assistant (AssistantPanel.tsx)\<close>

datatype Role = user | model

text \<open>The field \<open>text\<close> of \<open>Message\<close> is named \<open>msg_text\<close> here.\<close>

record Message =
  role :: Role
  msg_text :: string

text \<open>A chat session is known by the transcript in its system instruction.\<close>

datatype Chat = Chat string

definition createChatSession :: "string \<Rightarrow> string \<Rightarrow> string + Chat" where
  "createChatSession apiKey t = (if apiKey = [] then Inl ''API Key is missing.'' else Inr (Chat t))"

record panel_state =
  messages :: "Message list"
  input :: string
  isLoading :: bool
  chatSession :: "Chat option"

definition panel_initial :: panel_state where
  "panel_initial = \<lparr>messages = [], input = [], isLoading = False, chatSession = None\<rparr>"

definition greeting :: string where
  "greeting = ''I've analyzed the transcript. I can help you summarize the content, find specific quotes, or answer questions about what was discussed.''"

text \<open>The effect that depends on \<open>transcription\<close>.\<close>

definition init_chat :: "string \<Rightarrow> string \<Rightarrow> panel_state \<Rightarrow> panel_state" where
  "init_chat apiKey t p =
     (if t = [] then p
      else (case createChatSession apiKey t of
              Inr session \<Rightarrow>
                p\<lparr>chatSession := Some session, messages := [\<lparr>role = model, msg_text = greeting\<rparr>]\<rparr>
            | Inl e \<Rightarrow>
                p\<lparr>messages := [\<lparr>role = model,
                     msg_text = ''Error initializing AI assistant. Please check your API key.''\<rparr>]\<rparr>))"

text \<open>
  \<open>handleSend\<close> is \<open>async\<close> too: \<open>handleSend_start\<close> gives the state at the \<open>await\<close> and the
  message passed to \<open>chatSession.sendMessage\<close> when it is called; \<open>handleSend_settle\<close> is the
  rest, with \<open>Inr\<close> the text of the response (empty when there is none) and \<open>Inl\<close> an error
  thrown.
\<close>

definition handleSend_start :: "string \<Rightarrow> panel_state \<Rightarrow> panel_state \<times> string option" where
  "handleSend_start txt p =
     (if trim txt = [] \<or> chatSession p = None \<or> isLoading p then (p, None)
      else (p\<lparr>messages := messages p @ [\<lparr>role = user, msg_text = txt\<rparr>],
              input := [], isLoading := True\<rparr>,
            Some txt))"

definition handleSend_settle :: "string + string \<Rightarrow> panel_state \<Rightarrow> panel_state" where
  "handleSend_settle outcome p =
     (case outcome of
        Inr response_text \<Rightarrow>
          p\<lparr>messages := messages p @
               [\<lparr>role = model,
                 msg_text = (if response_text = [] then ''I couldn't generate a response.''
                             else response_text)\<rparr>],
            isLoading := False\<rparr>
      | Inl e \<Rightarrow>
          p\<lparr>messages := messages p @
               [\<lparr>role = model, msg_text = ''Sorry, I encountered an error. Please try again.''\<rparr>],
            isLoading := False\<rparr>)"

section \<open>The component tree (the App component)\<close>

text \<open>
  \<open>App\<close> renders \<open>MediaUploader\<close> when there is no media file, and the workspace otherwise;
  in the workspace it renders \<open>AssistantPanel\<close> when the active tab is the assistant's. A
  component that is not rendered is unmounted and its state is lost: when it is rendered
  again it starts from its initial state and its effects run. The state of the whole
  application is the state of \<open>App\<close>, the states of the mounted components, and the
  remote calls that have not settled: \<open>transcribe_pending\<close> calls of \<open>transcribeMedia\<close>,
  \<open>chat_pending\<close> calls of \<open>sendMessage\<close> made by the mounted panel, and \<open>chat_stale\<close> calls
  made by a panel that has been unmounted since (nothing cancels a call).
\<close>

record system =
  app :: app_state
  uploader :: "uploader_state option"
  panel :: "panel_state option"
  transcribe_pending :: nat
  chat_pending :: nat
  chat_stale :: nat

definition panel_rendered :: "app_state \<Rightarrow> bool" where
  "panel_rendered a = (mediaFile a \<noteq> None \<and> activeTab a = assistant)"

text \<open>The components after \<open>App\<close> has rendered with a new state; \<open>before\<close> is the state of
  \<open>App\<close> at the previous render. The effect of a mounted panel runs again when its
  \<open>transcription\<close> has changed.\<close>

definition reconcile :: "string \<Rightarrow> app_state \<Rightarrow> system \<Rightarrow> system" where
  "reconcile apiKey before s =
     (let a = app s in
      s\<lparr>uploader :=
          (if mediaFile a = None
           then (case uploader s of None \<Rightarrow> Some \<lparr>upload_error = None\<rparr> | Some u \<Rightarrow> Some u)
           else None),
        panel :=
          (if panel_rendered a
           then (case panel s of
                   None \<Rightarrow> Some (init_chat apiKey (transcription a) panel_initial)
                 | Some p \<Rightarrow>
                     Some (if transcription a = transcription before then p
                           else init_chat apiKey (transcription a) p))
           else None),
        chat_pending := (if panel_rendered a then chat_pending s else 0),
        chat_stale := (if panel_rendered a then chat_stale s else chat_stale s + chat_pending s)\<rparr>)"

text \<open>
  What can happen: a file is picked or dropped (with the URL the browser makes for it),
  Start Transcription is pressed, the call of \<open>transcribeMedia\<close> settles, a reset button is
  pressed (Change File, or New in the transcript view), a tab is selected, the input of
  the assistant is edited, \<open>handleSend\<close> is invoked with a text, the call of \<open>sendMessage\<close>
  of the mounted panel settles, or one of an unmounted panel does (the state updates of its
  continuation go to a component that is no longer there and are dropped).
\<close>

datatype event =
    SelectFile File string
  | StartTranscription
  | TranscriptionSettled "string + string"
  | Reset
  | SelectTab tab
  | TypeInput string
  | Send string
  | ChatSettled "string + string"
  | StaleChatSettled "string + string"

text \<open>
  When the interface offers each of them: the uploader only without a media file; Start
  Transcription only in status \<open>IDLE\<close> or \<open>ERROR\<close>; Change File is disabled in status
  \<open>TRANSCRIBING\<close>, and New is there when the transcript is shown; the Assistant tab is
  disabled without a transcript. \<open>handleSend\<close> can be invoked whenever the panel is mounted:
  its own guard decides.
\<close>

fun enabled :: "system \<Rightarrow> event \<Rightarrow> bool" where
  "enabled s (SelectFile f url) = (mediaFile (app s) = None)"
| "enabled s StartTranscription =
     (mediaFile (app s) \<noteq> None \<and> (status (app s) = IDLE \<or> status (app s) = ERROR))"
| "enabled s (TranscriptionSettled r) = (0 < transcribe_pending s)"
| "enabled s Reset =
     (mediaFile (app s) \<noteq> None \<and>
      (status (app s) \<noteq> TRANSCRIBING \<or>
       (activeTab (app s) = transcript \<and> transcription (app s) \<noteq> [])))"
| "enabled s (SelectTab t) =
     (mediaFile (app s) \<noteq> None \<and> (t = assistant \<longrightarrow> transcription (app s) \<noteq> []))"
| "enabled s (TypeInput v) = (panel s \<noteq> None)"
| "enabled s (Send txt) = (panel s \<noteq> None)"
| "enabled s (ChatSettled r) = (0 < chat_pending s)"
| "enabled s (StaleChatSettled r) = (0 < chat_stale s)"

fun step :: "string \<Rightarrow> system \<Rightarrow> event \<Rightarrow> system" where
  "step apiKey s (SelectFile f url) =
     (case uploader s of
        None \<Rightarrow> s
      | Some u \<Rightarrow>
          (case validateAndProcessFile f url u of
             (u', None) \<Rightarrow> s\<lparr>uploader := Some u'\<rparr>
           | (u', Some m) \<Rightarrow>
               reconcile apiKey (app s)
                 (s\<lparr>uploader := Some u', app := run_setters (handleFileSelect m) (app s)\<rparr>)))"
| "step apiKey s StartTranscription =
     (case handleTranscribe_start (app s) of
        (cs, call) \<Rightarrow>
          reconcile apiKey (app s)
            (s\<lparr>app := run_setters cs (app s),
               transcribe_pending := transcribe_pending s + (if call = None then 0 else 1)\<rparr>))"
| "step apiKey s (TranscriptionSettled r) =
     reconcile apiKey (app s)
       (s\<lparr>app := run_setters (handleTranscribe_settle (transcribeMedia apiKey r)) (app s),
          transcribe_pending := transcribe_pending s - 1\<rparr>)"
| "step apiKey s Reset =
     reconcile apiKey (app s) (s\<lparr>app := run_setters handleReset (app s)\<rparr>)"
| "step apiKey s (SelectTab t) =
     reconcile apiKey (app s) (s\<lparr>app := run_setters [SetActiveTab t] (app s)\<rparr>)"
| "step apiKey s (TypeInput v) =
     (case panel s of None \<Rightarrow> s | Some p \<Rightarrow> s\<lparr>panel := Some (p\<lparr>input := v\<rparr>)\<rparr>)"
| "step apiKey s (Send txt) =
     (case panel s of
        None \<Rightarrow> s
      | Some p \<Rightarrow>
          (case handleSend_start txt p of
             (p', call) \<Rightarrow>
               s\<lparr>panel := Some p',
                 chat_pending := chat_pending s + (if call = None then 0 else 1)\<rparr>))"
| "step apiKey s (ChatSettled r) =
     (case panel s of
        None \<Rightarrow> s
      | Some p \<Rightarrow> s\<lparr>panel := Some (handleSend_settle r p), chat_pending := chat_pending s - 1\<rparr>)"
| "step apiKey s (StaleChatSettled r) = s\<lparr>chat_stale := chat_stale s - 1\<rparr>"

definition initial_app :: app_state where
  "initial_app =
     \<lparr>mediaFile = None, status = IDLE, transcription = [], error = None, activeTab = transcript\<rparr>"

definition initial_system :: system where
  "initial_system =
     \<lparr>app = initial_app, uploader = Some \<lparr>upload_error = None\<rparr>, panel = None,
      transcribe_pending = 0, chat_pending = 0, chat_stale = 0\<rparr>"

text \<open>The states the application can be in, and the run of a list of events (\<open>None\<close> when
  one of them is not offered).\<close>

inductive reachable :: "string \<Rightarrow> system \<Rightarrow> bool" for apiKey :: string where
  reachable_initial: "reachable apiKey initial_system"
| reachable_step: "reachable apiKey s \<Longrightarrow> enabled s e \<Longrightarrow> reachable apiKey (step apiKey s e)"

fun run_events :: "string \<Rightarrow> system \<Rightarrow> event list \<Rightarrow> system option" where
  "run_events apiKey s [] = Some s"
| "run_events apiKey s (e # es) =
     (if enabled s e then run_events apiKey (step apiKey s e) es else None)"

definition invariant :: "string \<Rightarrow> system \<Rightarrow> bool" where
  "invariant apiKey s =
     (status (app s) \<noteq> PROCESSING_FILE
      \<and> (transcription (app s) \<noteq> [] \<longrightarrow> apiKey \<noteq> [])
      \<and> transcribe_pending s = (if status (app s) = TRANSCRIBING then 1 else 0)
      \<and> (status (app s) = COMPLETED) = (transcription (app s) \<noteq> [])
      \<and> (mediaFile (app s) = None \<longrightarrow> status (app s) = IDLE \<and> activeTab (app s) = transcript)
      \<and> (activeTab (app s) = assistant \<longrightarrow> transcription (app s) \<noteq> [])
      \<and> (panel s = None) = (\<not> panel_rendered (app s))
      \<and> (uploader s = None) = (mediaFile (app s) \<noteq> None)
      \<and> chat_pending s = (case panel s of None \<Rightarrow> 0 | Some p \<Rightarrow> if isLoading p then 1 else 0)
      \<and> (\<forall>p. panel s = Some p \<longrightarrow> isLoading p \<longrightarrow>
            chatSession p \<noteq> None \<and> messages p \<noteq> [] \<and> role (last (messages p)) = user))"

definition outstanding_chat_calls :: "system \<Rightarrow> nat" where
  "outstanding_chat_calls s = chat_pending s + chat_stale s"

text \<open>The conversation on the screen: the messages of the mounted panel, none when no
  panel is mounted.\<close>

definition panel_messages :: "system \<Rightarrow> Message list" where
  "panel_messages s = (case panel s of None \<Rightarrow> [] | Some p \<Rightarrow> messages p)"

section \<open>Sample inputs\<close>

definition sample_file :: File where
  "sample_file = \<lparr>file_name = ''talk.mp3'', file_type = ''audio/mpeg'', file_size = 4096\<rparr>"

definition sample_key :: string where
  "sample_key = ''key''"

text \<open>A file has been selected; then it has been transcribed; then the assistant's tab has
  been opened; then a question has been sent.\<close>

definition sample_loaded :: system where
  "sample_loaded = step sample_key initial_system (SelectFile sample_file ''blob:1'')"

definition sample_completed :: system where
  "sample_completed =
     step sample_key (step sample_key sample_loaded StartTranscription)
       (TranscriptionSettled (Inr ''Speaker 1: hello''))"

definition sample_assistant :: system where
  "sample_assistant = step sample_key sample_completed (SelectTab assistant)"

definition sample_asking :: system where
  "sample_asking = step sample_key sample_assistant (Send ''Who speaks?'')"

text \<open>The same as a list of events, from the start of the application.\<close>

definition sample_events :: "event list" where
  "sample_events =
     [SelectFile sample_file ''blob:1'', StartTranscription,
      TranscriptionSettled (Inr ''Speaker 1: hello''), SelectTab assistant, Send ''Who speaks?'']"

section \<open>Properties of search and highlight\<close>

lemma split_on_nonempty: "split_on sep acc s \<noteq> []"
  by (induction s arbitrary: acc) auto

lemma join_split_on: "join_with sep (split_on sep acc s) = acc @ s"
proof (induction s arbitrary: acc)
  case Nil
  then show ?case by simp
next
  case (Cons c cs)
  show ?case
  proof (cases "c = sep")
    case True
    obtain r rs where R: "split_on sep [] cs = r # rs"
      using split_on_nonempty [of sep "[]" cs] by (cases "split_on sep [] cs") auto
    have "join_with sep (r # rs) = cs"
      using Cons.IH [of "[]"] R by simp
    then show ?thesis using True R by simp
  next
    case False
    then show ?thesis using Cons.IH [of "acc @ [c]"] by simp
  qed
qed

lemma concat_split_regex: "concat (split_regex q seg s) = seg @ s"
  by (induction q seg s rule: split_regex.induct) auto

lemma concat_js_split: "concat (js_split q s) = s"
  by (simp add: js_split_def concat_split_regex)

lemma fst_mark_parts_Cons:
  "fst (mark_parts q n (p # ps)) =
     (if toLowerCase p = toLowerCase q
      then \<lparr>part_text = p, isMatch = True, index = int n\<rparr> # fst (mark_parts q (n + 1) ps)
      else plain_part p # fst (mark_parts q n ps))"
  by (simp split: prod.splits)


lemma fst_process_Cons:
  "fst (process_paragraphs q n (p # ps)) =
     (if trim p = []
      then \<lparr>para_text = p, parts = [plain_part p]\<rparr> # fst (process_paragraphs q n ps)
      else \<lparr>para_text = p, parts = fst (mark_parts q n (js_split q p))\<rparr>
             # fst (process_paragraphs q (snd (mark_parts q n (js_split q p))) ps))"
  by (simp split: prod.splits)


lemma processedParagraphs_search:
  "processedParagraphs (search t q) =
     (if q = [] then map (\<lambda>p. \<lparr>para_text = p, parts = [plain_part p]\<rparr>) (split_newline t)
      else fst (process_paragraphs q 0 (split_newline t)))"
  by (simp add: search_def split: prod.splits)


lemma part_text_mark_parts: "map part_text (fst (mark_parts q n xs)) = xs"
proof (induction xs arbitrary: n)
  case Nil
  then show ?case by simp
next
  case (Cons x xs)
  then show ?case
    by (simp only: fst_mark_parts_Cons) (simp add: plain_part_def)
qed

lemma para_text_process: "map para_text (fst (process_paragraphs q n ps)) = ps"
proof (induction ps arbitrary: n)
  case Nil
  then show ?case by simp
next
  case (Cons p ps)
  then show ?case
    by (simp only: fst_process_Cons) simp
qed

lemma rendered_process: "map rendered (fst (process_paragraphs q n ps)) = ps"
proof (induction ps arbitrary: n)
  case Nil
  then show ?case by simp
next
  case (Cons p ps)
  have "rendered \<lparr>para_text = p, parts = fst (mark_parts q n (js_split q p))\<rparr> = p"
    by (simp add: rendered_def part_text_mark_parts concat_js_split)
  moreover have "rendered \<lparr>para_text = p, parts = [plain_part p]\<rparr> = p"
    by (simp add: rendered_def plain_part_def)
  ultimately show ?case using Cons.IH
    by (simp only: fst_process_Cons) simp
qed

lemma search_text: "map para_text (processedParagraphs (search t q)) = split_newline t"
  by (simp add: processedParagraphs_search para_text_process comp_def)

lemma search_rendered: "map rendered (processedParagraphs (search t q)) = split_newline t"
  by (simp add: processedParagraphs_search rendered_process comp_def rendered_def plain_part_def)

text \<open>
  Claim C10. For every transcript and every query, the empty one included, the texts of the
  parts of each processed paragraph concatenate to that paragraph, and the paragraphs
  joined by line feeds are the transcript: highlighting cuts the text up and changes no
  character.
\<close>

theorem search_preserves_text:
  "map rendered (processedParagraphs (search t q)) = map para_text (processedParagraphs (search t q))
   \<and> join_with newline (map para_text (processedParagraphs (search t q))) = t"
  by (simp add: search_text search_rendered split_newline_def join_split_on)

theorem search_preserves_text_witness:
  "map rendered (processedParagraphs (search (''Hi, hi'' @ [newline] @ ''x'') ''hi'')) = [''Hi, hi'', ''x'']
   \<and> join_with newline (map para_text (processedParagraphs (search (''Hi, hi'' @ [newline] @ ''x'') ''hi'')))
       = ''Hi, hi'' @ [newline] @ ''x''"
proof -
  have "map para_text (processedParagraphs (search (''Hi, hi'' @ [newline] @ ''x'') ''hi'')) = [''Hi, hi'', ''x'']"
    by code_simp
  then show ?thesis
    using search_preserves_text [of "''Hi, hi'' @ [newline] @ ''x''" "''hi''"] by simp
qed

subsection \<open>The match counter and the indices\<close>







subsection \<open>The marked parts and the occurrences of the query\<close>




















text \<open>Beyond ASCII: \<open>U+00C9\<close> and \<open>U+00E9\<close> are the same letter up to case, and a paragraph
  that is one no-break space is empty after \<open>trim\<close> and is not searched.\<close>

lemma search_latin1_examples:
  "totalMatches (search (CHR 0xC9 # ''cole'') (CHR 0xE9 # ''cole'')) = 1
   \<and> trim [CHR 0xA0] = []
   \<and> totalMatches (search [CHR 0xA0] [CHR 0xA0]) = 0"
  by code_simp

section \<open>Properties of match navigation\<close>

text \<open>
  Claim C2. With \<open>n > 0\<close> matches and the current index \<open>i\<close> in \<open>[0, n)\<close>, next sets the
  index to \<open>(i + 1) mod n\<close> and previous to \<open>(i - 1 + n) mod n\<close>; both stay in \<open>[0, n)\<close>,
  and next followed by previous gives \<open>i\<close> back.
\<close>

theorem match_navigation_cycles:
  assumes "0 < n" and "0 \<le> i" and "i < int n"
  shows "handleNextMatch n i = Some ((i + 1) mod int n)
    \<and> handlePrevMatch n i = Some ((i - 1 + int n) mod int n)
    \<and> 0 \<le> (i + 1) mod int n \<and> (i + 1) mod int n < int n
    \<and> 0 \<le> (i - 1 + int n) mod int n \<and> (i - 1 + int n) mod int n < int n
    \<and> Option.bind (handleNextMatch n i) (handlePrevMatch n) = Some i"
proof -
  have n0: "int n \<noteq> 0" "0 < int n" using assms(1) by simp_all
  have nx: "handleNextMatch n i = Some ((i + 1) mod int n)"
    using assms n0 by (simp add: handleNextMatch_def js_remainder_def sgn_if)
  have pv: "handlePrevMatch n j = Some ((j - 1 + int n) mod int n)" if "0 \<le> j" "j < int n" for j
    using that n0 by (cases "j - 1 + int n = 0") (simp_all add: handlePrevMatch_def js_remainder_def sgn_if)
  have r1: "0 \<le> (i + 1) mod int n" "(i + 1) mod int n < int n"
    using n0 by simp_all
  have round: "(((i + 1) mod int n) - 1 + int n) mod int n = i"
  proof (cases "i + 1 = int n")
    case True
    then have "(i + 1) mod int n = 0"
      by simp
    moreover have "(0 - 1 + int n) mod int n = i"
      using True assms(2) by (simp flip: True)
    ultimately show ?thesis
      by simp
  next
    case False
    then have "(i + 1) mod int n = i + 1"
      using assms by simp
    moreover have "(i + 1 - 1 + int n) mod int n = i"
      using assms by simp
    ultimately show ?thesis
      by simp
  qed
  show ?thesis
    using nx pv [OF assms(2,3)] pv [OF r1] r1 round n0 by simp
qed

theorem match_navigation_cycles_witness:
  "0 < (3::nat) \<and> (0::int) \<le> 2 \<and> (2::int) < int 3
    \<and> handleNextMatch 3 2 = Some 0 \<and> handlePrevMatch 3 0 = Some 2
    \<and> Option.bind (handleNextMatch 3 2) (handlePrevMatch 3) = Some 2"
  using match_navigation_cycles [of 3 2] by (simp add: handleNextMatch_def handlePrevMatch_def js_remainder_def)

section \<open>Properties of the application\<close>

subsection \<open>The invariant of the reachable states\<close>

lemma run_setters_simps:
  "run_setters [] a = a"
  "run_setters (c # cs) a = run_setters cs (apply_setter c a)"
  by (simp_all add: run_setters_def)

lemma app_handleReset:
  "run_setters handleReset a = initial_app"
  by (simp add: handleReset_def run_setters_simps initial_app_def)

lemma app_handleFileSelect:
  "run_setters (handleFileSelect m) a = initial_app\<lparr>mediaFile := Some m\<rparr>"
  by (simp add: handleFileSelect_def run_setters_simps initial_app_def)

lemma transcribeMedia_Inr: "transcribeMedia k r = Inr t \<Longrightarrow> t \<noteq> [] \<and> k \<noteq> []"
  by (auto simp: transcribeMedia_def split: if_splits sum.splits)

lemma invariant_initial: "invariant k initial_system"
  by (simp add: invariant_def initial_system_def initial_app_def panel_rendered_def)

lemma invariant_step:
  assumes "invariant k s" and "enabled s e"
  shows "invariant k (step k s e)"
proof (cases e)
  case (SelectFile f url)
  then show ?thesis using assms
    by (auto simp: invariant_def reconcile_def panel_rendered_def app_handleFileSelect initial_app_def
        validateAndProcessFile_def Let_def split: option.splits prod.splits if_splits)
next
  case StartTranscription
  then show ?thesis using assms
    by (auto simp: invariant_def reconcile_def panel_rendered_def handleTranscribe_start_def run_setters_simps
        Let_def split: option.splits prod.splits if_splits)
next
  case (TranscriptionSettled r)
  show ?thesis
  proof (cases "transcribeMedia k r")
    case (Inl m)
    then show ?thesis using assms TranscriptionSettled
    by (auto simp: invariant_def reconcile_def panel_rendered_def handleTranscribe_settle_def run_setters_simps
        Let_def split: option.splits prod.splits if_splits)
  next
    case (Inr t)
    then have "t \<noteq> [] \<and> k \<noteq> []" by (rule transcribeMedia_Inr)
    then show ?thesis using assms TranscriptionSettled Inr
    by (auto simp: invariant_def reconcile_def panel_rendered_def handleTranscribe_settle_def run_setters_simps
        Let_def split: option.splits prod.splits if_splits)
  qed
next
  case Reset
  then show ?thesis using assms
    by (auto simp: invariant_def reconcile_def panel_rendered_def app_handleReset initial_app_def
        Let_def split: option.splits prod.splits if_splits)
next
  case (SelectTab t)
  then show ?thesis using assms
    by (cases t) (auto simp: invariant_def reconcile_def panel_rendered_def run_setters_simps init_chat_def panel_initial_def createChatSession_def
        Let_def split: option.splits prod.splits if_splits)
next
  case (TypeInput v)
  then show ?thesis using assms
    by (auto simp: invariant_def split: option.splits)
next
  case (Send msg)
  then show ?thesis using assms
    by (auto simp: invariant_def handleSend_start_def split: option.splits if_splits)
next
  case (ChatSettled r)
  then show ?thesis using assms
    by (auto simp: invariant_def handleSend_settle_def split: option.splits if_splits sum.splits)
next
  case (StaleChatSettled x)
  then show ?thesis using assms
    by (auto simp: invariant_def split: option.splits)
qed

lemma reachable_invariant: "reachable k s \<Longrightarrow> invariant k s"
  by (induction rule: reachable.induct) (simp_all add: invariant_initial invariant_step)

subsection \<open>Evaluation of the samples\<close>

lemmas eval_defs = initial_system_def initial_app_def sample_file_def validateAndProcessFile_def
  startsWith_def reconcile_def panel_rendered_def run_setters_simps handleFileSelect_def handleReset_def
  handleTranscribe_start_def handleTranscribe_settle_def transcribeMedia_def init_chat_def
  createChatSession_def panel_initial_def handleSend_start_def handleSend_settle_def trim_def
  is_white_space_def outstanding_chat_calls_def Let_def sample_key_def panel_messages_def
  sample_events_def

lemmas sample_defs = sample_loaded_def sample_completed_def sample_assistant_def sample_asking_def

lemma reachable_sample_loaded: "reachable sample_key sample_loaded"
  unfolding sample_loaded_def
  by (rule reachable_step [OF reachable_initial]) (simp add: eval_defs)

lemma reachable_sample_completed: "reachable sample_key sample_completed"
  unfolding sample_completed_def
proof (rule reachable_step [OF reachable_step [OF reachable_sample_loaded]])
  show "enabled sample_loaded StartTranscription"
    by (simp add: sample_defs eval_defs)
  show "enabled (step sample_key sample_loaded StartTranscription)
     (TranscriptionSettled (Inr ''Speaker 1: hello''))"
    by (simp add: sample_defs eval_defs)
qed

lemma reachable_sample_assistant: "reachable sample_key sample_assistant"
  unfolding sample_assistant_def
  by (rule reachable_step [OF reachable_sample_completed]) (simp add: sample_defs eval_defs)

lemma reachable_sample_asking: "reachable sample_key sample_asking"
  unfolding sample_asking_def
  by (rule reachable_step [OF reachable_sample_assistant]) (simp add: sample_defs eval_defs)

lemma run_events_reachable:
  "reachable k s \<Longrightarrow> run_events k s es = Some s' \<Longrightarrow> reachable k s'"
proof (induction es arbitrary: s)
  case Nil
  then show ?case by simp
next
  case (Cons e es)
  then show ?case
    by (cases "enabled s e") (auto intro: reachable_step)
qed

subsection \<open>Transcription\<close>

lemma app_reconcile: "app (reconcile k b s) = app s"
  by (simp add: reconcile_def Let_def)

lemma transcribe_pending_reconcile: "transcribe_pending (reconcile k b s) = transcribe_pending s"
  by (simp add: reconcile_def Let_def)

lemma app_start:
  "mediaFile a = Some m \<Longrightarrow>
     handleTranscribe_start a = ([SetStatus PROCESSING_FILE, SetError None, SetStatus TRANSCRIBING], Some (file_obj m))"
  by (simp add: handleTranscribe_start_def)

lemma completed_keeps_transcript:
  assumes "reachable k u" and "status (app u) = COMPLETED" and "enabled u e" and "e \<noteq> Reset"
  shows "transcription (app (step k u e)) = transcription (app u)"
proof -
  have inv: "invariant k u" using assms(1) by (rule reachable_invariant)
  then have p: "transcribe_pending u = 0" and m: "mediaFile (app u) \<noteq> None"
    using assms(2) by (auto simp: invariant_def)
  show ?thesis
  proof (cases e)
    case (SelectFile f url)
    then show ?thesis using assms(3) m by simp
  next
    case StartTranscription
    then show ?thesis using assms(2,3) by simp
  next
    case (TranscriptionSettled r)
    then show ?thesis using assms(3) p by simp
  next
    case Reset
    then show ?thesis using assms(4) by simp
  next
    case (SelectTab t)
    then show ?thesis by (simp add: app_reconcile run_setters_simps)
  next
    case (TypeInput v)
    then show ?thesis by (simp split: option.splits)
  next
    case (Send msg)
    then show ?thesis by (simp split: option.splits prod.splits)
  next
    case (ChatSettled r)
    then show ?thesis by (simp split: option.splits)
  next
    case (StaleChatSettled x)
    then show ?thesis by simp
  qed
qed

text \<open>
  Claim C3, and where the code departs from it. When Start Transcription is pressed in
  status \<open>IDLE\<close> and the call of \<open>transcribeMedia\<close> returns a transcript, the handler calls
  \<open>setStatus\<close> with \<open>PROCESSING_FILE\<close>, \<open>TRANSCRIBING\<close> and \<open>COMPLETED\<close>, in this order, and
  sets the transcript exactly once, to what the call returned. The first two calls are
  made in one run of the handler, before its \<open>await\<close>: the states of the application are
  \<open>IDLE\<close>, then \<open>TRANSCRIBING\<close>, then \<open>COMPLETED\<close>, and no reachable state has the status
  \<open>PROCESSING_FILE\<close>. In a reachable state with status \<open>COMPLETED\<close>, nothing the interface
  offers but a reset changes the transcript (a file cannot be selected there, and no call
  is pending).
\<close>

theorem transcription_success:
  "(enabled s StartTranscription \<and> status (app s) = IDLE \<and> transcribeMedia k r = Inr t \<longrightarrow>
      statuses_set (fst (handleTranscribe_start (app s)) @ handleTranscribe_settle (transcribeMedia k r))
        = [PROCESSING_FILE, TRANSCRIBING, COMPLETED]
      \<and> transcripts_set (fst (handleTranscribe_start (app s)) @ handleTranscribe_settle (transcribeMedia k r)) = [t]
      \<and> map (\<lambda>x. status (app x))
            [s, step k s StartTranscription, step k (step k s StartTranscription) (TranscriptionSettled r)]
          = [IDLE, TRANSCRIBING, COMPLETED]
      \<and> transcription (app (step k s StartTranscription)) = transcription (app s)
      \<and> enabled (step k s StartTranscription) (TranscriptionSettled r)
      \<and> transcription (app (step k (step k s StartTranscription) (TranscriptionSettled r))) = t)
   \<and> (reachable k u \<longrightarrow> status (app u) \<noteq> PROCESSING_FILE)
   \<and> (reachable k u \<and> status (app u) = COMPLETED \<and> enabled u e \<and> e \<noteq> Reset \<longrightarrow>
      transcription (app (step k u e)) = transcription (app u))"
proof (intro conjI impI)
  assume "reachable k u \<and> status (app u) = COMPLETED \<and> enabled u e \<and> e \<noteq> Reset"
  then show "transcription (app (step k u e)) = transcription (app u)"
    using completed_keeps_transcript by blast
next
  assume "reachable k u"
  then have "invariant k u"
    by (rule reachable_invariant)
  then show "status (app u) \<noteq> PROCESSING_FILE"
    by (simp add: invariant_def)
next
  assume a: "enabled s StartTranscription \<and> status (app s) = IDLE \<and> transcribeMedia k r = Inr t"
  then obtain m where m: "mediaFile (app s) = Some m" by auto
  note st = app_start [OF m]
  show "statuses_set (fst (handleTranscribe_start (app s)) @ handleTranscribe_settle (transcribeMedia k r))
        = [PROCESSING_FILE, TRANSCRIBING, COMPLETED]"
    using a by (simp add: st handleTranscribe_settle_def)
  show "transcripts_set (fst (handleTranscribe_start (app s)) @ handleTranscribe_settle (transcribeMedia k r)) = [t]"
    using a by (simp add: st handleTranscribe_settle_def)
  show "map (\<lambda>x. status (app x))
            [s, step k s StartTranscription, step k (step k s StartTranscription) (TranscriptionSettled r)]
          = [IDLE, TRANSCRIBING, COMPLETED]"
    using a by (simp add: st app_reconcile run_setters_simps handleTranscribe_settle_def)
  show "transcription (app (step k s StartTranscription)) = transcription (app s)"
    by (simp add: st app_reconcile run_setters_simps)
  show "enabled (step k s StartTranscription) (TranscriptionSettled r)"
    by (simp add: st transcribe_pending_reconcile)
  show "transcription (app (step k (step k s StartTranscription) (TranscriptionSettled r))) = t"
    using a by (simp add: app_reconcile run_setters_simps handleTranscribe_settle_def)
qed

theorem transcription_success_witness:
  "enabled sample_loaded StartTranscription \<and> status (app sample_loaded) = IDLE
   \<and> transcribeMedia sample_key (Inr ''Speaker 1: hello'') = Inr ''Speaker 1: hello''
   \<and> map (\<lambda>x. status (app x))
         [sample_loaded, step sample_key sample_loaded StartTranscription, sample_completed]
       = [IDLE, TRANSCRIBING, COMPLETED]
   \<and> transcription (app sample_completed) = ''Speaker 1: hello''
   \<and> reachable sample_key sample_completed
   \<and> enabled sample_completed (SelectTab assistant)
   \<and> transcription (app sample_assistant) = transcription (app sample_completed)"
proof -
  have h1: "enabled sample_loaded StartTranscription \<and> status (app sample_loaded) = IDLE
      \<and> transcribeMedia sample_key (Inr ''Speaker 1: hello'') = Inr ''Speaker 1: hello''"
    by (simp add: sample_defs eval_defs)
  have st: "status (app sample_completed) = COMPLETED"
    by (simp add: sample_defs eval_defs)
  have en: "enabled sample_completed (SelectTab assistant)"
    by (simp add: sample_defs eval_defs)
  have h2: "reachable sample_key sample_completed \<and> status (app sample_completed) = COMPLETED
      \<and> enabled sample_completed (SelectTab assistant) \<and> SelectTab assistant \<noteq> Reset"
    using reachable_sample_completed st en by simp
  note T = transcription_success [of sample_loaded sample_key "Inr ''Speaker 1: hello''"
      "''Speaker 1: hello''" sample_completed "SelectTab assistant"]
  have "map (\<lambda>x. status (app x))
         [sample_loaded, step sample_key sample_loaded StartTranscription, sample_completed]
       = [IDLE, TRANSCRIBING, COMPLETED]"
    using T h1 unfolding sample_completed_def by blast
  moreover have "transcription (app sample_completed) = ''Speaker 1: hello''"
    using T h1 unfolding sample_completed_def by blast
  moreover have "transcription (app sample_assistant) = transcription (app sample_completed)"
    using T h2 unfolding sample_assistant_def by blast
  ultimately show ?thesis
    using h1 h2 by blast
qed

lemma transcribeMedia_Inl: "transcribeMedia k r = Inl m \<Longrightarrow> m \<noteq> []"
  by (auto simp: transcribeMedia_def split: if_splits sum.splits)

lemma pending_only_start:
  "e \<noteq> StartTranscription \<Longrightarrow> transcribe_pending (step k s e) \<le> transcribe_pending s"
  by (cases e) (auto simp: transcribe_pending_reconcile split: option.splits prod.splits)

text \<open>
  Claim C4. When the call of \<open>transcribeMedia\<close> throws, the status becomes \<open>ERROR\<close>, the
  error message is set to the (non-empty) message thrown, the transcript is unchanged and
  empty, and no call is pending afterwards: only pressing Start Transcription again makes
  one.
\<close>

theorem transcription_failure:
  assumes "reachable k s" and "enabled s StartTranscription" and "transcribeMedia k r = Inl m"
  shows "enabled (step k s StartTranscription) (TranscriptionSettled r)
    \<and> status (app (step k (step k s StartTranscription) (TranscriptionSettled r))) = ERROR
    \<and> error (app (step k (step k s StartTranscription) (TranscriptionSettled r))) = Some m
    \<and> m \<noteq> []
    \<and> transcription (app (step k (step k s StartTranscription) (TranscriptionSettled r))) = transcription (app s)
    \<and> transcription (app s) = []
    \<and> transcribe_pending (step k (step k s StartTranscription) (TranscriptionSettled r)) = 0
    \<and> (\<forall>e. e \<noteq> StartTranscription \<longrightarrow>
          transcribe_pending (step k (step k (step k s StartTranscription) (TranscriptionSettled r)) e) = 0)"
proof -
  have inv: "invariant k s" using assms(1) by (rule reachable_invariant)
  obtain mf where mf: "mediaFile (app s) = Some mf" using assms(2) by auto
  note st = app_start [OF mf]
  have ne: "m \<noteq> []" using assms(3) by (rule transcribeMedia_Inl)
  have p0: "transcribe_pending s = 0" and t0: "transcription (app s) = []"
    using inv assms(2) by (auto simp: invariant_def)
  let ?s2 = "step k (step k s StartTranscription) (TranscriptionSettled r)"
  have pend: "transcribe_pending ?s2 = 0"
    using p0 by (simp add: st transcribe_pending_reconcile)
  have "\<forall>e. e \<noteq> StartTranscription \<longrightarrow> transcribe_pending (step k ?s2 e) = 0"
    using pending_only_start [of _ k ?s2] pend by (metis le_zero_eq)
  moreover have "enabled (step k s StartTranscription) (TranscriptionSettled r)"
    by (simp add: st transcribe_pending_reconcile)
  moreover have "status (app ?s2) = ERROR" "error (app ?s2) = Some m"
      "transcription (app ?s2) = transcription (app s)"
    using assms(3) ne by (simp_all add: st app_reconcile run_setters_simps handleTranscribe_settle_def)
  ultimately show ?thesis using ne t0 pend by blast
qed

theorem transcription_failure_witness:
  "reachable sample_key sample_loaded \<and> enabled sample_loaded StartTranscription
   \<and> transcribeMedia sample_key (Inl ''quota exceeded'') = Inl ''quota exceeded''
   \<and> status (app (step sample_key (step sample_key sample_loaded StartTranscription)
        (TranscriptionSettled (Inl ''quota exceeded'')))) = ERROR
   \<and> error (app (step sample_key (step sample_key sample_loaded StartTranscription)
        (TranscriptionSettled (Inl ''quota exceeded'')))) = Some ''quota exceeded''
   \<and> transcription (app (step sample_key (step sample_key sample_loaded StartTranscription)
        (TranscriptionSettled (Inl ''quota exceeded'')))) = []"
proof -
  have h: "enabled sample_loaded StartTranscription"
      "transcribeMedia sample_key (Inl ''quota exceeded'') = Inl ''quota exceeded''"
    by (simp_all add: sample_defs eval_defs)
  show ?thesis
    using transcription_failure [OF reachable_sample_loaded h] reachable_sample_loaded h by simp
qed

subsection \<open>File validation\<close>

text \<open>
  Claim C5. A file whose MIME type starts with neither \<open>audio/\<close> nor \<open>video/\<close>, or whose size
  is above \<open>50 * 1024 * 1024\<close> bytes, sets a non-empty error message in the uploader and
  \<open>onFileSelect\<close> is not called: nothing but the uploader's message changes. For any other
  file \<open>onFileSelect\<close> is called with the file, its URL and the tag \<open>audio\<close> when the type
  starts with \<open>audio/\<close>, \<open>video\<close> otherwise.
\<close>

theorem file_validation:
  "((\<not> startsWith (file_type f) ''audio/'' \<and> \<not> startsWith (file_type f) ''video/'')
      \<or> 50 * 1024 * 1024 < file_size f \<longrightarrow>
        snd (validateAndProcessFile f url u) = None
      \<and> (\<exists>msg. upload_error (fst (validateAndProcessFile f url u)) = Some msg \<and> msg \<noteq> [])
      \<and> (uploader s = Some u \<longrightarrow>
            step k s (SelectFile f url) = s\<lparr>uploader := Some (fst (validateAndProcessFile f url u))\<rparr>))
   \<and> (\<not> ((\<not> startsWith (file_type f) ''audio/'' \<and> \<not> startsWith (file_type f) ''video/'')
      \<or> 50 * 1024 * 1024 < file_size f) \<longrightarrow>
        snd (validateAndProcessFile f url u) =
          Some \<lparr>file_obj = f, previewUrl = url,
                media_type = (if startsWith (file_type f) ''audio/'' then audio else video)\<rparr>
      \<and> upload_error (fst (validateAndProcessFile f url u)) = None)"
proof -
  define isAudio where "isAudio = startsWith (file_type f) ''audio/''"
  define isVideo where "isVideo = startsWith (file_type f) ''video/''"
  define big where "big = (50 * 1024 * 1024 < file_size f)"
  have v: "validateAndProcessFile f url u =
     (if \<not> isAudio \<and> \<not> isVideo
      then (u\<lparr>upload_error := Some ''Please upload a valid audio or video file.''\<rparr>, None)
      else if big
      then (u\<lparr>upload_error := Some
                 ''File is too large for this demo (limit 50MB). Please compress or trim the file.''\<rparr>,
               None)
      else (u\<lparr>upload_error := None\<rparr>, Some \<lparr>file_obj = f, previewUrl = url,
                          media_type = (if isAudio then audio else video)\<rparr>))"
    unfolding validateAndProcessFile_def isAudio_def isVideo_def big_def Let_def by simp
  show ?thesis
    unfolding isAudio_def [symmetric] isVideo_def [symmetric] big_def [symmetric]
    by (cases "\<not> isAudio \<and> \<not> isVideo"; cases big) (simp_all add: v)
qed

theorem file_validation_witness:
  "startsWith (file_type sample_file) ''audio/'' \<and> \<not> 50 * 1024 * 1024 < file_size sample_file
   \<and> snd (validateAndProcessFile sample_file ''blob:1'' \<lparr>upload_error = None\<rparr>) =
        Some \<lparr>file_obj = sample_file, previewUrl = ''blob:1'', media_type = audio\<rparr>
   \<and> \<not> startsWith ''text/plain'' ''audio/'' \<and> \<not> startsWith ''text/plain'' ''video/''
   \<and> snd (validateAndProcessFile \<lparr>file_name = ''notes.txt'', file_type = ''text/plain'', file_size = 10\<rparr>
        ''blob:2'' \<lparr>upload_error = None\<rparr>) = None
   \<and> step sample_key initial_system
        (SelectFile \<lparr>file_name = ''notes.txt'', file_type = ''text/plain'', file_size = 10\<rparr> ''blob:2'')
      = initial_system\<lparr>uploader := Some \<lparr>upload_error = Some ''Please upload a valid audio or video file.''\<rparr>\<rparr>"
proof -
  have a: "startsWith (file_type sample_file) ''audio/''" "\<not> 50 * 1024 * 1024 < file_size sample_file"
    by (simp_all add: sample_file_def startsWith_def)
  have b: "\<not> startsWith ''text/plain'' ''audio/''" "\<not> startsWith ''text/plain'' ''video/''"
    by (simp_all add: startsWith_def)
  have u: "uploader initial_system = Some \<lparr>upload_error = None\<rparr>"
    by (simp add: initial_system_def)
  have e: "fst (validateAndProcessFile \<lparr>file_name = ''notes.txt'', file_type = ''text/plain'', file_size = 10\<rparr>
        ''blob:2'' \<lparr>upload_error = None\<rparr>) = \<lparr>upload_error = Some ''Please upload a valid audio or video file.''\<rparr>"
    by (simp add: validateAndProcessFile_def startsWith_def)
  note ok = file_validation [of sample_file "''blob:1''" "\<lparr>upload_error = None\<rparr>" initial_system sample_key]
  note rej = file_validation [of "\<lparr>file_name = ''notes.txt'', file_type = ''text/plain'', file_size = 10\<rparr>"
      "''blob:2''" "\<lparr>upload_error = None\<rparr>" initial_system sample_key]
  have "snd (validateAndProcessFile sample_file ''blob:1'' \<lparr>upload_error = None\<rparr>) =
        Some \<lparr>file_obj = sample_file, previewUrl = ''blob:1'', media_type = audio\<rparr>"
    using ok a by simp
  moreover have "snd (validateAndProcessFile \<lparr>file_name = ''notes.txt'', file_type = ''text/plain'', file_size = 10\<rparr>
        ''blob:2'' \<lparr>upload_error = None\<rparr>) = None"
    using rej b by simp
  moreover have "step sample_key initial_system
        (SelectFile \<lparr>file_name = ''notes.txt'', file_type = ''text/plain'', file_size = 10\<rparr> ''blob:2'')
      = initial_system\<lparr>uploader := Some \<lparr>upload_error = Some ''Please upload a valid audio or video file.''\<rparr>\<rparr>"
    using rej b u unfolding e by simp
  ultimately show ?thesis
    using a b by blast
qed

subsection \<open>Reset\<close>

text \<open>
  Claim C6. In every state, a reset gives status \<open>IDLE\<close>, the empty transcript, no media
  file and no error message, and the assistant panel is unmounted: its chat session and
  its messages are gone. From a reachable state no transcription call is pending after it.
\<close>

theorem reset_clears:
  "run_setters handleReset a =
     \<lparr>mediaFile = None, status = IDLE, transcription = [], error = None, activeTab = transcript\<rparr>
   \<and> app (step k s Reset) =
     \<lparr>mediaFile = None, status = IDLE, transcription = [], error = None, activeTab = transcript\<rparr>
   \<and> panel (step k s Reset) = None
   \<and> chat_pending (step k s Reset) = 0
   \<and> (reachable k s \<and> enabled s Reset \<longrightarrow> transcribe_pending (step k s Reset) = 0)"
proof -
  have "transcribe_pending (step k s Reset) = 0" if "reachable k s" "enabled s Reset"
  proof -
    have "invariant k s" using that(1) by (rule reachable_invariant)
    then show ?thesis using that(2)
      by (auto simp: invariant_def transcribe_pending_reconcile)
  qed
  then show ?thesis
    by (simp add: app_handleReset initial_app_def app_reconcile reconcile_def panel_rendered_def Let_def)
qed

theorem reset_clears_witness:
  "reachable sample_key sample_asking \<and> enabled sample_asking Reset
   \<and> map_option (\<lambda>p. length (messages p)) (panel sample_asking) = Some 2
   \<and> app (step sample_key sample_asking Reset) = initial_app
   \<and> panel (step sample_key sample_asking Reset) = None
   \<and> chat_pending (step sample_key sample_asking Reset) = 0
   \<and> transcribe_pending (step sample_key sample_asking Reset) = 0"
proof -
  have en: "enabled sample_asking Reset"
    by (simp add: sample_defs eval_defs)
  have two: "map_option (\<lambda>p. length (messages p)) (panel sample_asking) = Some 2"
    by (simp add: sample_defs eval_defs)
  show ?thesis
    using reset_clears [of initial_app sample_key sample_asking] reachable_sample_asking en two
    by (simp add: initial_app_def)
qed

subsection \<open>The assistant\<close>

lemma send_noop:
  "trim msg = [] \<or> chatSession p = None \<or> isLoading p \<Longrightarrow> handleSend_start msg p = (p, None)"
  by (simp add: handleSend_start_def)

text \<open>A text of one no-break space is blank: nothing is sent.\<close>

lemma send_no_break_space: "handleSend_start [CHR 0xA0] p = (p, None)"
  by (simp add: handleSend_start_def trim_def is_white_space_def)

text \<open>
  Claim C7, as amended. While the panel is loading, and whenever the text is empty after
  \<open>trim\<close> or there is no chat session, \<open>handleSend\<close> changes nothing and calls nothing. Hence
  in every reachable state at most one call made by the mounted panel is outstanding, and
  there is one exactly when the panel is loading.
\<close>

theorem send_guard:
  "(trim msg = [] \<or> chatSession p = None \<or> isLoading p \<longrightarrow>
      handleSend_start msg p = (p, None) \<and> (panel s = Some p \<longrightarrow> step k s (Send msg) = s))
   \<and> (reachable k s \<longrightarrow>
        chat_pending s \<le> 1 \<and> (chat_pending s = 1) = (\<exists>q. panel s = Some q \<and> isLoading q))"
proof (intro conjI impI)
  assume g: "trim msg = [] \<or> chatSession p = None \<or> isLoading p"
  show "handleSend_start msg p = (p, None)"
    using g by (rule send_noop)
  assume "panel s = Some p"
  then show "step k s (Send msg) = s"
    using send_noop [OF g] by simp
next
  assume "reachable k s"
  then have inv: "invariant k s" by (rule reachable_invariant)
  show "chat_pending s \<le> 1"
    using inv by (auto simp: invariant_def split: option.splits)
  show "(chat_pending s = 1) = (\<exists>q. panel s = Some q \<and> isLoading q)"
    using inv by (auto simp: invariant_def split: option.splits)
qed

theorem send_guard_witness:
  "isLoading (the (panel sample_asking)) \<and> panel sample_asking \<noteq> None
   \<and> reachable sample_key sample_asking
   \<and> step sample_key sample_asking (Send ''And when?'') = sample_asking
   \<and> chat_pending sample_asking = 1"
proof -
  obtain p where p: "panel sample_asking = Some p" and l: "isLoading p"
    by (simp add: sample_defs eval_defs)
  note T = send_guard [of "''And when?''" p sample_asking sample_key]
  have "step sample_key sample_asking (Send ''And when?'') = sample_asking"
    using T p l by blast
  moreover have "chat_pending sample_asking = 1"
    using T p l reachable_sample_asking by blast
  ultimately show ?thesis
    using p l reachable_sample_asking by simp
qed

text \<open>
  Claim C7 as stated fails: \<open>at most one chat request is outstanding at any time\<close>. A
  question is sent from the assistant's tab; the Transcript tab is selected, which unmounts
  the panel while its call is outstanding; the Assistant tab is selected again, which
  mounts a new panel that is not loading; a question is sent again. Two calls are
  outstanding.
\<close>

theorem two_chat_calls_counterexample:
  "map_option outstanding_chat_calls
     (run_events ''key'' initial_system
        [SelectFile sample_file ''blob:1'', StartTranscription,
         TranscriptionSettled (Inr ''Speaker 1: hello''), SelectTab assistant,
         Send ''Who speaks?'', SelectTab transcript, SelectTab assistant, Send ''Who speaks?''])
     = Some 2"
  by (simp add: eval_defs)

lemma messages_init_chat:
  "t \<noteq> [] \<Longrightarrow> messages (init_chat k t p) =
     [\<lparr>role = model,
       msg_text = (if k = [] then ''Error initializing AI assistant. Please check your API key.''
                   else greeting)\<rparr>]"
  by (simp add: init_chat_def createChatSession_def)

lemma messages_settle:
  "\<exists>m. messages (handleSend_settle r p) = messages p @ [m] \<and> role m = model"
  by (cases r) (simp_all add: handleSend_settle_def)

lemma step_panel_kept:
  assumes "invariant k s" and "enabled s e" and "panel s = Some q" and "panel (step k s e) = Some q'"
  shows "messages q' = messages q \<or> (\<exists>m. messages q' = messages q @ [m])"
proof -
  have r: "panel_rendered (app s)" and t: "transcription (app s) \<noteq> []"
    and c: "status (app s) = COMPLETED" and p: "transcribe_pending s = 0"
    using assms(1,3) by (auto simp: invariant_def panel_rendered_def)
  show ?thesis
  proof (cases e)
    case (SelectFile f url)
    then show ?thesis using assms(2) r by (simp add: panel_rendered_def)
  next
    case StartTranscription
    then show ?thesis using assms(2) c by simp
  next
    case (TranscriptionSettled x)
    then show ?thesis using assms(2) p by simp
  next
    case Reset
    then show ?thesis using assms(4)
      by (simp add: reconcile_def app_handleReset initial_app_def panel_rendered_def Let_def)
  next
    case (SelectTab t)
    then show ?thesis using assms(3,4)
      by (cases t) (auto simp: reconcile_def run_setters_simps panel_rendered_def Let_def split: if_splits)
  next
    case (TypeInput v)
    then show ?thesis using assms(3,4) by auto
  next
    case (Send msg)
    then show ?thesis using assms(3,4)
      by (auto simp: handleSend_start_def split: if_splits)
  next
    case (ChatSettled x)
    then show ?thesis using assms(3,4) messages_settle [of x q] by auto
  next
    case (StaleChatSettled x)
    then show ?thesis using assms(3,4) by auto
  qed
qed

lemma step_panel_mounted:
  assumes "invariant k s" and "enabled s e" and "panel s = None" and "panel (step k s e) = Some q'"
  shows "messages q' = [\<lparr>role = model, msg_text = greeting\<rparr>] \<and> chatSession q' \<noteq> None"
proof -
  have nr: "\<not> panel_rendered (app s)"
    using assms(1,3) by (auto simp: invariant_def)
  have key: "transcription (app s) \<noteq> [] \<longrightarrow> k \<noteq> []"
    using assms(1) by (simp add: invariant_def)
  show ?thesis
  proof (cases e)
    case (SelectFile f url)
    then show ?thesis using assms(3,4)
      by (auto simp: reconcile_def app_handleFileSelect initial_app_def panel_rendered_def Let_def
          split: option.splits prod.splits)
  next
    case StartTranscription
    then show ?thesis using assms(2,3,4) nr
      by (auto simp: reconcile_def handleTranscribe_start_def run_setters_simps panel_rendered_def Let_def
          split: option.splits if_splits)
  next
    case (TranscriptionSettled x)
    then show ?thesis using assms(3,4) nr
      by (cases "transcribeMedia k x")
         (auto simp: reconcile_def handleTranscribe_settle_def run_setters_simps panel_rendered_def Let_def
          split: option.splits if_splits)
  next
    case Reset
    then show ?thesis using assms(4)
      by (simp add: reconcile_def app_handleReset initial_app_def panel_rendered_def Let_def)
  next
    case (SelectTab t)
    then show ?thesis using assms(2,3,4) key
      by (cases t)
         (auto simp: reconcile_def run_setters_simps panel_rendered_def Let_def init_chat_def
            createChatSession_def panel_initial_def split: if_splits)
  next
    case (TypeInput v)
    then show ?thesis using assms(3,4) by auto
  next
    case (Send msg)
    then show ?thesis using assms(3,4) by auto
  next
    case (ChatSettled x)
    then show ?thesis using assms(3,4) by auto
  next
    case (StaleChatSettled x)
    then show ?thesis using assms(3,4) by auto
  qed
qed

lemma step_panel_unmounted:
  assumes "invariant k s" and "enabled s e" and "panel s = Some q" and "panel (step k s e) = None"
  shows "e = Reset \<or> e = SelectTab transcript"
proof -
  have r: "panel_rendered (app s)" and c: "status (app s) = COMPLETED" and p: "transcribe_pending s = 0"
    using assms(1,3) by (auto simp: invariant_def panel_rendered_def)
  show ?thesis
  proof (cases e)
    case (SelectFile f url)
    then show ?thesis using assms(2) r by (simp add: panel_rendered_def)
  next
    case StartTranscription
    then show ?thesis using assms(2) c by simp
  next
    case (TranscriptionSettled x)
    then show ?thesis using assms(2) p by simp
  next
    case Reset
    then show ?thesis by simp
  next
    case (SelectTab t)
    then show ?thesis using assms(3,4) r
      by (cases t) (auto simp: reconcile_def run_setters_simps panel_rendered_def Let_def split: if_splits)
  next
    case (TypeInput v)
    then show ?thesis using assms(3,4) by auto
  next
    case (Send msg)
    then show ?thesis using assms(3,4) by (auto split: prod.splits)
  next
    case (ChatSettled x)
    then show ?thesis using assms(3,4) by auto
  next
    case (StaleChatSettled x)
    then show ?thesis using assms(3,4) by auto
  qed
qed

lemma loading_last_user:
  assumes "reachable k s" and "panel s = Some q" and "isLoading q"
  shows "messages q \<noteq> [] \<and> role (last (messages q)) = user \<and> chatSession q \<noteq> None \<and> chat_pending s = 1"
proof -
  have "invariant k s" using assms(1) by (rule reachable_invariant)
  then show ?thesis using assms(2,3) by (auto simp: invariant_def)
qed

text \<open>
  Claim C8, as amended. The effect that initialises the chat leaves the messages alone (no
  transcript) or replaces them by one message of the model; \<open>handleSend\<close> appends nothing or
  the user's message; its completion appends one message of the model, so that a turn that
  starts appends the user's message and then the model's. In the running application, an
  event that keeps the panel mounted keeps its messages or appends one at the end; an
  event that mounts the panel gives it the greeting alone; the panel is unmounted, and its
  messages are lost together, only by a reset or by selecting the Transcript tab; while
  the panel is loading the last message is the user's and the completion of the call puts
  a message of the model after it; and the completion of a call made by a panel that has
  been unmounted changes nothing.
\<close>

theorem messages_append_only:
  "(messages (init_chat k t p) = (if t = [] then messages p
       else [\<lparr>role = model,
              msg_text = (if k = [] then ''Error initializing AI assistant. Please check your API key.''
                          else greeting)\<rparr>]))
   \<and> (messages (fst (handleSend_start msg p)) = messages p
        \<or> messages (fst (handleSend_start msg p)) = messages p @ [\<lparr>role = user, msg_text = msg\<rparr>])
   \<and> (\<exists>m. messages (handleSend_settle r p) = messages p @ [m] \<and> role m = model)
   \<and> (snd (handleSend_start msg p) \<noteq> None \<longrightarrow>
        (\<exists>m. messages (handleSend_settle r (fst (handleSend_start msg p)))
              = messages p @ [\<lparr>role = user, msg_text = msg\<rparr>, m] \<and> role m = model))
   \<and> (reachable k s \<and> enabled s e \<and> panel s = Some q \<and> panel (step k s e) = Some q' \<longrightarrow>
        messages q' = messages q \<or> (\<exists>m. messages q' = messages q @ [m]))
   \<and> (reachable k s \<and> enabled s e \<and> panel s = None \<and> panel (step k s e) = Some q' \<longrightarrow>
        messages q' = [\<lparr>role = model, msg_text = greeting\<rparr>] \<and> chatSession q' \<noteq> None)
   \<and> (reachable k s \<and> enabled s e \<and> panel s = Some q \<and> panel (step k s e) = None \<longrightarrow>
        e = Reset \<or> e = SelectTab transcript)
   \<and> (reachable k s \<and> panel s = Some q \<and> isLoading q \<longrightarrow>
        messages q \<noteq> [] \<and> role (last (messages q)) = user \<and> enabled s (ChatSettled r)
        \<and> (\<exists>m. map_option messages (panel (step k s (ChatSettled r))) = Some (messages q @ [m])
               \<and> role m = model))
   \<and> panel (step k s (StaleChatSettled r)) = panel s"
proof (intro conjI impI)
  show "messages (init_chat k t p) = (if t = [] then messages p
       else [\<lparr>role = model,
              msg_text = (if k = [] then ''Error initializing AI assistant. Please check your API key.''
                          else greeting)\<rparr>])"
    using messages_init_chat [of t k p] by (simp add: init_chat_def)
  show "messages (fst (handleSend_start msg p)) = messages p
        \<or> messages (fst (handleSend_start msg p)) = messages p @ [\<lparr>role = user, msg_text = msg\<rparr>]"
    by (simp add: handleSend_start_def)
  show "\<exists>m. messages (handleSend_settle r p) = messages p @ [m] \<and> role m = model"
    by (rule messages_settle)
  show "panel (step k s (StaleChatSettled r)) = panel s"
    by simp
next
  assume "snd (handleSend_start msg p) \<noteq> None"
  then have "messages (fst (handleSend_start msg p)) = messages p @ [\<lparr>role = user, msg_text = msg\<rparr>]"
    by (simp add: handleSend_start_def split: if_splits)
  then show "\<exists>m. messages (handleSend_settle r (fst (handleSend_start msg p)))
              = messages p @ [\<lparr>role = user, msg_text = msg\<rparr>, m] \<and> role m = model"
    using messages_settle [of r "fst (handleSend_start msg p)"] by simp
next
  assume "reachable k s \<and> enabled s e \<and> panel s = Some q \<and> panel (step k s e) = Some q'"
  then show "messages q' = messages q \<or> (\<exists>m. messages q' = messages q @ [m])"
    using step_panel_kept reachable_invariant by blast
next
  assume "reachable k s \<and> enabled s e \<and> panel s = None \<and> panel (step k s e) = Some q'"
  then show "messages q' = [\<lparr>role = model, msg_text = greeting\<rparr>]" "chatSession q' \<noteq> None"
    using step_panel_mounted reachable_invariant by blast+
next
  assume "reachable k s \<and> enabled s e \<and> panel s = Some q \<and> panel (step k s e) = None"
  then show "e = Reset \<or> e = SelectTab transcript"
    using step_panel_unmounted reachable_invariant by blast
next
  assume a: "reachable k s \<and> panel s = Some q \<and> isLoading q"
  then have l: "messages q \<noteq> [] \<and> role (last (messages q)) = user \<and> chatSession q \<noteq> None \<and> chat_pending s = 1"
    using loading_last_user by blast
  show "messages q \<noteq> []" "role (last (messages q)) = user" "enabled s (ChatSettled r)"
    using l by simp_all
  show "\<exists>m. map_option messages (panel (step k s (ChatSettled r))) = Some (messages q @ [m])
               \<and> role m = model"
    using a messages_settle [of r q] by simp
qed

text \<open>
  Claim C8 as stated fails: \<open>existing messages are never deleted, and a user message is
  always followed by a model message\<close>. A question is sent from the assistant's tab: the
  conversation is the greeting and the question. The Transcript tab is selected: the
  panel is unmounted and the conversation is gone. The Assistant tab is selected again and
  the call settles: the conversation is the greeting alone, no call is outstanding, and
  the question was never followed by a message of the model.
\<close>

theorem conversation_lost_counterexample:
  "map_option panel_messages (run_events sample_key initial_system sample_events)
     = Some [\<lparr>role = model, msg_text = greeting\<rparr>, \<lparr>role = user, msg_text = ''Who speaks?''\<rparr>]
   \<and> map_option panel_messages
       (run_events sample_key initial_system (sample_events @ [SelectTab transcript])) = Some []
   \<and> map_option panel_messages
       (run_events sample_key initial_system
          (sample_events @ [SelectTab transcript, SelectTab assistant, StaleChatSettled (Inr ''Speaker 1.'')]))
     = Some [\<lparr>role = model, msg_text = greeting\<rparr>]
   \<and> map_option outstanding_chat_calls
       (run_events sample_key initial_system
          (sample_events @ [SelectTab transcript, SelectTab assistant, StaleChatSettled (Inr ''Speaker 1.'')]))
     = Some 0"
  by (simp add: eval_defs)

theorem messages_append_only_witness:
  "reachable sample_key sample_asking
   \<and> map_option isLoading (panel sample_asking) = Some True
   \<and> map_option (map role \<circ> messages) (panel sample_asking) = Some [model, user]
   \<and> enabled sample_asking (ChatSettled (Inr ''Speaker 1.''))
   \<and> map_option (map role \<circ> messages) (panel (step sample_key sample_asking (ChatSettled (Inr ''Speaker 1.''))))
       = Some [model, user, model]
   \<and> panel sample_completed = None \<and> enabled sample_completed (SelectTab assistant)
   \<and> map_option (map role \<circ> messages) (panel (step sample_key sample_completed (SelectTab assistant)))
       = Some [model]"
proof -
  obtain p where p: "panel sample_asking = Some p" and l: "isLoading p"
      and m: "map role (messages p) = [model, user]"
    by (simp add: sample_defs eval_defs)
  have n: "panel sample_completed = None" and en: "enabled sample_completed (SelectTab assistant)"
    by (simp_all add: sample_defs eval_defs)
  obtain q where q: "panel (step sample_key sample_completed (SelectTab assistant)) = Some q"
    by (simp add: sample_defs eval_defs)
  note T1 = messages_append_only [of sample_key "[]" p "[]" "Inr ''Speaker 1.''" sample_asking
      "ChatSettled (Inr ''Speaker 1.'')" p p]
  note T2 = messages_append_only [of sample_key "[]" p "[]" "Inr ''Speaker 1.''" sample_completed
      "SelectTab assistant" p q]
  have e1: "enabled sample_asking (ChatSettled (Inr ''Speaker 1.''))"
    using T1 p l reachable_sample_asking by blast
  obtain x where x: "map_option messages (panel (step sample_key sample_asking (ChatSettled (Inr ''Speaker 1.''))))
       = Some (messages p @ [x])" "role x = model"
    using T1 p l reachable_sample_asking by blast
  have r1: "map_option (map role \<circ> messages) (panel (step sample_key sample_asking (ChatSettled (Inr ''Speaker 1.''))))
       = Some [model, user, model]"
    using x m by (cases "panel (step sample_key sample_asking (ChatSettled (Inr ''Speaker 1.'')))") auto
  have y: "messages q = [\<lparr>role = model, msg_text = greeting\<rparr>]"
    using T2 n en q reachable_sample_completed by blast
  have r2: "map_option (map role \<circ> messages) (panel (step sample_key sample_completed (SelectTab assistant)))
       = Some [model]"
    using q y by simp
  show ?thesis
    using reachable_sample_asking p l m e1 r1 n en r2 by simp
qed

text \<open>
  Claim C9, as amended. When the call of \<open>sendMessage\<close> throws and the panel that made it is
  still mounted (it is then loading), the messages are kept (the user's message, the last
  one, among them), one message of the model with the error text is appended, and the
  loading flag is cleared: no call of the panel is outstanding, and a new text that is not
  blank is sent. When the panel has been unmounted since, nothing is appended.
\<close>

theorem chat_failure:
  "messages (handleSend_settle (Inl x) p) =
       messages p @ [\<lparr>role = model, msg_text = ''Sorry, I encountered an error. Please try again.''\<rparr>]
   \<and> isLoading (handleSend_settle (Inl x) p) = False
   \<and> chatSession (handleSend_settle (Inl x) p) = chatSession p
   \<and> (trim msg \<noteq> [] \<and> chatSession p \<noteq> None \<longrightarrow>
        snd (handleSend_start msg (handleSend_settle (Inl x) p)) = Some msg)
   \<and> (reachable k s \<and> enabled s (ChatSettled (Inl x)) \<longrightarrow>
        (\<exists>q. panel s = Some q \<and> isLoading q))
   \<and> (reachable k s \<and> panel s = Some p \<and> isLoading p \<longrightarrow>
        messages p \<noteq> [] \<and> role (last (messages p)) = user
        \<and> enabled s (ChatSettled (Inl x))
        \<and> panel (step k s (ChatSettled (Inl x))) = Some (handleSend_settle (Inl x) p)
        \<and> chat_pending (step k s (ChatSettled (Inl x))) = 0)
   \<and> panel (step k s (StaleChatSettled (Inl x))) = panel s"
proof (intro conjI impI)
  show "messages (handleSend_settle (Inl x) p) =
       messages p @ [\<lparr>role = model, msg_text = ''Sorry, I encountered an error. Please try again.''\<rparr>]"
    "isLoading (handleSend_settle (Inl x) p) = False"
    "chatSession (handleSend_settle (Inl x) p) = chatSession p"
    by (simp_all add: handleSend_settle_def)
  show "panel (step k s (StaleChatSettled (Inl x))) = panel s"
    by simp
next
  assume "trim msg \<noteq> [] \<and> chatSession p \<noteq> None"
  then show "snd (handleSend_start msg (handleSend_settle (Inl x) p)) = Some msg"
    by (simp add: handleSend_start_def handleSend_settle_def)
next
  assume a: "reachable k s \<and> enabled s (ChatSettled (Inl x))"
  then have "invariant k s"
    using reachable_invariant by blast
  then show "\<exists>q. panel s = Some q \<and> isLoading q"
    using a by (auto simp: invariant_def split: option.splits if_splits)
next
  assume a: "reachable k s \<and> panel s = Some p \<and> isLoading p"
  then have l: "messages p \<noteq> [] \<and> role (last (messages p)) = user \<and> chatSession p \<noteq> None \<and> chat_pending s = 1"
    using loading_last_user by blast
  show "messages p \<noteq> []" "role (last (messages p)) = user" "enabled s (ChatSettled (Inl x))"
    using l by simp_all
  show "panel (step k s (ChatSettled (Inl x))) = Some (handleSend_settle (Inl x) p)"
    "chat_pending (step k s (ChatSettled (Inl x))) = 0"
    using a l by simp_all
qed

text \<open>
  Claim C9 as stated fails: \<open>for every chat turn in which the remote call throws\<close>. A
  question is sent and the Transcript tab is selected before the call settles. The call
  belongs to no mounted panel: when it throws nothing is appended, and when the Assistant
  tab is selected again the conversation is the greeting alone, without the question and
  without an error message.
\<close>

theorem stale_failure_counterexample:
  "run_events sample_key initial_system
       (sample_events @ [SelectTab transcript, ChatSettled (Inl ''network'')]) = None
   \<and> map_option panel_messages
       (run_events sample_key initial_system
          (sample_events @ [SelectTab transcript, StaleChatSettled (Inl ''network'')])) = Some []
   \<and> map_option panel_messages
       (run_events sample_key initial_system
          (sample_events @ [SelectTab transcript, StaleChatSettled (Inl ''network''), SelectTab assistant]))
     = Some [\<lparr>role = model, msg_text = greeting\<rparr>]
   \<and> map_option outstanding_chat_calls
       (run_events sample_key initial_system
          (sample_events @ [SelectTab transcript, StaleChatSettled (Inl ''network''), SelectTab assistant]))
     = Some 0"
  by (simp add: eval_defs)

theorem chat_failure_witness:
  "reachable sample_key sample_asking
   \<and> map_option isLoading (panel sample_asking) = Some True
   \<and> enabled sample_asking (ChatSettled (Inl ''network''))
   \<and> map_option (map role \<circ> messages) (panel (step sample_key sample_asking (ChatSettled (Inl ''network''))))
       = Some [model, user, model]
   \<and> map_option isLoading (panel (step sample_key sample_asking (ChatSettled (Inl ''network'')))) = Some False
   \<and> chat_pending (step sample_key sample_asking (ChatSettled (Inl ''network''))) = 0"
proof -
  obtain p where p: "panel sample_asking = Some p" and l: "isLoading p"
      and m: "map role (messages p) = [model, user]"
    by (simp add: sample_defs eval_defs)
  note T = chat_failure [of "''network''" p "[]" sample_key sample_asking]
  have s: "panel (step sample_key sample_asking (ChatSettled (Inl ''network''))) = Some (handleSend_settle (Inl ''network'') p)"
    and c: "chat_pending (step sample_key sample_asking (ChatSettled (Inl ''network''))) = 0"
    and e: "enabled sample_asking (ChatSettled (Inl ''network''))"
    using T p l reachable_sample_asking by blast+
  have "messages (handleSend_settle (Inl ''network'') p) =
       messages p @ [\<lparr>role = model, msg_text = ''Sorry, I encountered an error. Please try again.''\<rparr>]"
    and "isLoading (handleSend_settle (Inl ''network'') p) = False"
    using T by blast+
  then show ?thesis
    using reachable_sample_asking p l m s c e by simp
qed

end
